theory Spec2Isabelle
  imports Complex_Main "HOL-Library.Word"
begin

section \<open>Data model of the goal region sampler\<close>

text \<open>
  The embedding follows \<^verbatim>\<open>goal_region_sampler.cpp\<close>. A \<^verbatim>\<open>double\<close> is a
  \<open>real\<close>, an \<^verbatim>\<open>unsigned int\<close> member is a \<open>32 word\<close>, a \<^verbatim>\<open>std::vector\<close>
  is a list. Reading a vector past its end and calling through a null pointer are
  undefined behaviour in C++; the model makes them the error values \<open>OutOfRange\<close>
  and \<open>NullPointer\<close>.
\<close>

datatype error = OutOfRange | NullPointer

definition vector_at :: "'a list \<Rightarrow> nat \<Rightarrow> error + 'a" where
  "vector_at xs i = (if i < length xs then Inr (xs ! i) else Inl OutOfRange)"

text \<open>An OMPL state of the planning space: the joint values.\<close>

type_synonym state = "real list"

text \<open>A MoveIt robot state (all joint values of the robot).\<close>

type_synonym robot_state = "real list"

record quaternion =
  q_x :: real
  q_y :: real
  q_z :: real
  q_w :: real

text \<open>
  \<^verbatim>\<open>moveit_msgs::WorkspaceGoalRegion\<close>: the fields \<^verbatim>\<open>x.min\<close>, \<^verbatim>\<open>x.max\<close>, ...,
  \<^verbatim>\<open>roll.free_value\<close>, ... that the file reads.
\<close>

record WorkspaceGoalRegion =
  x_min :: real
  x_max :: real
  y_min :: real
  y_max :: real
  z_min :: real
  z_max :: real
  roll_free_value :: bool
  pitch_free_value :: bool
  yaw_free_value :: bool

text \<open>
  \<^verbatim>\<open>moveit_msgs::Constraints\<close>, restricted to the fields the file reads and writes:
  \<^verbatim>\<open>position_constraints[k].constraint_region.primitive_poses[l].position\<close> and
  \<^verbatim>\<open>orientation_constraints[k].orientation\<close>.
\<close>

record primitive_pose =
  position_x :: real
  position_y :: real
  position_z :: real

record PositionConstraint =
  primitive_poses :: "primitive_pose list"

record OrientationConstraint =
  orientation :: quaternion

record Constraints =
  position_constraints :: "PositionConstraint list"
  orientation_constraints :: "OrientationConstraint list"

text \<open>
  The end-effector frame \<^verbatim>\<open>ee_pose\<close> (an \<^verbatim>\<open>Eigen::Affine3d\<close>): its translation and
  its rotation, the latter as the quaternion the code converts it to.
\<close>

record Affine3d =
  translation_x :: real
  translation_y :: real
  translation_z :: real
  rotation :: quaternion

text \<open>A sampled \<^verbatim>\<open>SE3StateSpace::StateType\<close>.\<close>

record SE3State =
  getX :: real
  getY :: real
  getZ :: real
  se3_rotation :: quaternion

text \<open>The bounds of the \<open>R^3\<close> part of an \<^verbatim>\<open>SE3StateSpace\<close>.\<close>

record RealVectorBounds =
  low :: "real list"
  high :: "real list"

text \<open>
  A state sampler of the planning space, as \<^verbatim>\<open>default_sampler_\<close> points to; of the
  pointer only whether it is set matters.
\<close>

datatype StateSampler = StateSampler

text \<open>A \<^verbatim>\<open>WeightedGoal\<close>; the heap handle is a pointer into the queue and is left out.\<close>

record WeightedGoal =
  state_ :: state
  weight_ :: real

text \<open>
  The members of \<^verbatim>\<open>GoalRegionSampler\<close> that the modelled functions read or write.
  \<open>goals_priority_queue\<close> is a member of the base class; the queue is a list in
  insertion order (every weight written here is 1.0). \<open>constraint_sampler\<close> is
  \<open>None\<close> for a null pointer, otherwise the constraints the sampler was selected for.
  \<open>default_sampler\<close> is the member \<^verbatim>\<open>default_sampler_\<close>, \<open>None\<close> for a null
  pointer; line 490 calls through it and no line of the file assigns it.
\<close>

record GoalRegionSampler =
  workspace_goal_regions :: "WorkspaceGoalRegion list"
  constrs :: "Constraints list"
  se3_spaces :: "RealVectorBounds list"
  se3_samplers :: "RealVectorBounds list"
  kinematic_constraint_set :: "Constraints list"
  constraint_sampler :: "Constraints list option"
  default_sampler :: "StateSampler option"
  work_state :: robot_state
  invalid_sampled_constraints :: "32 word"
  warned_invalid_samples :: bool
  verbose_display :: "32 word"
  goals_priority_queue :: "WeightedGoal list"

section \<open>Collaborators\<close>

text \<open>
  Forward kinematics, the \<^verbatim>\<open>tf\<close> conversions, the base class and the state space
  are not part of the file; they are parameters of the model.
  \<open>getGlobalLinkTransform\<close> stands for \<^verbatim>\<open>setJointGroupPositions\<close> followed by
  \<^verbatim>\<open>getGlobalLinkTransform("gripper_link")\<close>, \<open>getRPY\<close> for building a
  \<^verbatim>\<open>tf::Matrix3x3\<close> from a quaternion and calling \<^verbatim>\<open>getRPY\<close>, and
  \<open>base_distanceGoal\<close> for \<^verbatim>\<open>WeightedGoalRegionSampler::distanceGoal\<close>.
\<close>

record kinematics =
  getGlobalLinkTransform :: "state \<Rightarrow> Affine3d"
  getRPY :: "quaternion \<Rightarrow> real \<times> real \<times> real"
  createQuaternionFromRPY :: "real \<Rightarrow> real \<Rightarrow> real \<Rightarrow> quaternion"
  base_distanceGoal :: "state \<Rightarrow> real"
  equalStates :: "state \<Rightarrow> state \<Rightarrow> bool"

section \<open>distanceGoal\<close>

text \<open>
  The call \<^verbatim>\<open>abs(v)\<close> on a \<^verbatim>\<open>double\<close>: the overload \<^verbatim>\<open>std::abs(double)\<close>,
  which the \<^verbatim>\<open><math.h>\<close> and \<^verbatim>\<open><stdlib.h>\<close> of the C++ library bring into the
  global namespace. With a library that shows only \<^verbatim>\<open>abs(int)\<close> there, the argument
  would first be truncated to an integer; that reading is not modelled.
\<close>

definition cxx_abs :: "real \<Rightarrow> real" where
  "cxx_abs v = \<bar>v\<bar>"

text \<open>Lines 185 to 191: the three fixed-axis checks.\<close>

definition meet_orientation_const ::
  "WorkspaceGoalRegion \<Rightarrow> real \<times> real \<times> real \<Rightarrow> real \<times> real \<times> real \<Rightarrow> bool" where
  "meet_orientation_const r constr_rpy pose_rpy =
     (case constr_rpy of (constr_roll, constr_pitch, constr_yaw) \<Rightarrow>
      (case pose_rpy of (pose_roll, pose_pitch, pose_yaw) \<Rightarrow>
        (let m0 = True;
             m1 = (if \<not> roll_free_value r \<and> cxx_abs (constr_roll - pose_roll) > 0.02 then False else m0);
             m2 = (if \<not> pitch_free_value r \<and> cxx_abs (constr_pitch - pose_pitch) > 0.02 then False else m1);
             m3 = (if \<not> yaw_free_value r \<and> cxx_abs (constr_yaw - pose_yaw) > 0.02 then False else m2)
         in m3)))"

text \<open>
  The body of the loop of lines 153 to 199 for region \<open>i\<close> (with
  \<open>i < length (workspace_goal_regions s)\<close>, the loop's guard): \<open>Inr True\<close> when the
  body returns 0.0, \<open>Inr False\<close> when it falls through to the next region.
\<close>

definition inside_goal_region ::
  "kinematics \<Rightarrow> GoalRegionSampler \<Rightarrow> Affine3d \<Rightarrow> nat \<Rightarrow> error + bool" where
  "inside_goal_region k s ee_pose i =
     (let r = workspace_goal_regions s ! i in
      if translation_x ee_pose \<ge> x_min r \<and> translation_x ee_pose \<le> x_max r \<and>
         translation_y ee_pose \<ge> y_min r \<and> translation_y ee_pose \<le> y_max r
      then
        if roll_free_value r \<and> pitch_free_value r \<and> yaw_free_value r then Inr True
        else
          (case vector_at (constrs s) i of Inl e \<Rightarrow> Inl e | Inr c \<Rightarrow>
           (case vector_at (orientation_constraints c) 0 of Inl e \<Rightarrow> Inl e | Inr oc \<Rightarrow>
             Inr (meet_orientation_const r (getRPY k (orientation oc))
                    (getRPY k (rotation ee_pose)))))
      else Inr False)"

function distanceGoal_loop ::
  "kinematics \<Rightarrow> GoalRegionSampler \<Rightarrow> state \<Rightarrow> Affine3d \<Rightarrow> nat \<Rightarrow> error + real" where
  "distanceGoal_loop k s st ee_pose i =
     (if i < length (workspace_goal_regions s) then
        (case inside_goal_region k s ee_pose i of
           Inl e \<Rightarrow> Inl e
         | Inr True \<Rightarrow> Inr 0
         | Inr False \<Rightarrow> distanceGoal_loop k s st ee_pose (Suc i))
      else Inr (base_distanceGoal k st))"
  by pat_completeness auto
termination
  by (relation "measure (\<lambda>(k, s, st, ee_pose, i). length (workspace_goal_regions s) - i)") auto

declare distanceGoal_loop.simps [simp del]

definition distanceGoal :: "kinematics \<Rightarrow> GoalRegionSampler \<Rightarrow> state \<Rightarrow> error + real" where
  "distanceGoal k s st = distanceGoal_loop k s st (getGlobalLinkTransform k st) 0"

section \<open>addState, clear and the constructor\<close>

text \<open>
  \<open>queue_insert\<close> is \<^verbatim>\<open>goals_priority_queue_.insert\<close> of a new
  \<^verbatim>\<open>WeightedGoal\<close> holding a copy of the state, with weight 1.0.
\<close>

definition queue_insert :: "state \<Rightarrow> GoalRegionSampler \<Rightarrow> GoalRegionSampler" where
  "queue_insert new_goal s =
     s\<lparr>goals_priority_queue :=
         goals_priority_queue s @ [\<lparr>state_ = new_goal, weight_ = 1.0\<rparr>]\<rparr>"

text \<open>
  Lines 204 to 215. The call of \<^verbatim>\<open>WeightedGoalRegionSampler::addState\<close> changes
  members of the base class that this file never reads.
\<close>

definition addState :: "state \<Rightarrow> GoalRegionSampler \<Rightarrow> GoalRegionSampler" where
  "addState st s = queue_insert st s"

text \<open>
  Modelled from the spec: \<^verbatim>\<open>WeightedGoalRegionSampler::clear\<close>, the base class's
  method, is not in the source file. The spec says that \<open>clear()\<close> empties the weighted
  goal queue.
\<close>

definition WeightedGoalRegionSampler_clear :: "GoalRegionSampler \<Rightarrow> GoalRegionSampler" where
  "WeightedGoalRegionSampler_clear s = s\<lparr>goals_priority_queue := []\<rparr>"

text \<open>Lines 517 to 525.\<close>

definition clear :: "GoalRegionSampler \<Rightarrow> GoalRegionSampler" where
  "clear s =
     (let s1 = WeightedGoalRegionSampler_clear s;
          s2 = s1\<lparr>constrs := []\<rparr>;
          s3 = s2\<lparr>workspace_goal_regions := []\<rparr>;
          s4 = s3\<lparr>se3_samplers := []\<rparr>;
          s5 = s4\<lparr>se3_spaces := []\<rparr>
      in s5)"

text \<open>The bounds set in lines 91 to 98.\<close>

definition region_bounds :: "WorkspaceGoalRegion \<Rightarrow> RealVectorBounds" where
  "region_bounds r = \<lparr>low = [x_min r, y_min r, z_min r], high = [x_max r, y_max r, z_max r]\<rparr>"

text \<open>
  The constructor, lines 54 to 109, as far as it initialises the members of the model:
  \<open>pc_state\<close> is \<^verbatim>\<open>pc->getCompleteInitialRobotState()\<close>. The constructor does not
  mention \<^verbatim>\<open>constraint_sampler_\<close> and \<^verbatim>\<open>default_sampler_\<close>, which start as null
  pointers. Starting the sampling thread and the roadmap planner is outside the model.
\<close>

definition GoalRegionSampler_new ::
  "robot_state \<Rightarrow> Constraints list \<Rightarrow> WorkspaceGoalRegion list \<Rightarrow> GoalRegionSampler" where
  "GoalRegionSampler_new pc_state cs wsgrs =
     \<lparr>workspace_goal_regions = wsgrs,
      constrs = cs,
      se3_spaces = map region_bounds wsgrs,
      se3_samplers = map region_bounds wsgrs,
      kinematic_constraint_set = [],
      constraint_sampler = None,
      default_sampler = None,
      work_state = pc_state,
      invalid_sampled_constraints = 0,
      warned_invalid_samples = False,
      verbose_display = 0,
      goals_priority_queue = []\<rparr>"

section \<open>sampleUsingConstraintSampler\<close>

text \<open>
  What one call observes of its collaborators. A query that the code repeats is indexed
  by the region \<open>i\<close> and, inside the attempt loop, by the attempt \<open>a\<close>, so that every
  evaluation may answer differently:
  \<^item> \<open>se3_sampleUniform i b\<close>: the pose drawn by \<^verbatim>\<open>se3_samplers_[i]->sampleUniform\<close>;
  \<^item> \<open>selectSampler i cs\<close>: whether \<^verbatim>\<open>selectSampler\<close> returns a sampler (not null);
  \<^item> \<open>samplingAttemptsCount\<close>, \<open>isSampling\<close>, \<open>getStateCount\<close>: the queries on \<^verbatim>\<open>gls\<close>;
  \<^item> \<open>hasSolution i\<close>: \<^verbatim>\<open>getOMPLProblemDefinition()->hasSolution()\<close>;
  \<^item> \<open>project i a verbose cs ws\<close>: \<^verbatim>\<open>constraint_sampler_->project(work_state_, 2)\<close> with
    the validity callback bound to \<open>verbose\<close>: its result and the work state it leaves;
  \<^item> \<open>decide i a kcs ws verbose\<close>: \<^verbatim>\<open>kinematic_constraint_set_->decide(...).satisfied\<close>;
  \<^item> \<open>isValid i a st verbose\<close>: the state validity checker;
  \<^item> \<open>copyToOMPLState\<close>, \<open>copyToRobotState\<close>: the planning context's conversions;
  \<^item> \<open>default_sampleUniform i a\<close>: the state drawn by \<^verbatim>\<open>default_sampler_\<close>.
\<close>

record host =
  se3_sampleUniform :: "nat \<Rightarrow> RealVectorBounds \<Rightarrow> SE3State"
  selectSampler :: "nat \<Rightarrow> Constraints list \<Rightarrow> bool"
  samplingAttemptsCount :: "nat \<Rightarrow> 32 word"
  hasSolution :: "nat \<Rightarrow> bool"
  isSampling :: "nat \<Rightarrow> nat \<Rightarrow> bool"
  getStateCount :: "nat \<Rightarrow> nat \<Rightarrow> nat"
  project :: "nat \<Rightarrow> nat \<Rightarrow> bool \<Rightarrow> Constraints list \<Rightarrow> robot_state \<Rightarrow> bool \<times> robot_state"
  decide :: "nat \<Rightarrow> nat \<Rightarrow> Constraints list \<Rightarrow> robot_state \<Rightarrow> bool \<Rightarrow> bool"
  isValid :: "nat \<Rightarrow> nat \<Rightarrow> state \<Rightarrow> bool \<Rightarrow> bool"
  copyToOMPLState :: "robot_state \<Rightarrow> state"
  copyToRobotState :: "robot_state \<Rightarrow> state \<Rightarrow> robot_state"
  default_sampleUniform :: "nat \<Rightarrow> nat \<Rightarrow> state"

text \<open>
  The calls that receive the \<^verbatim>\<open>verbose\<close> flag of an attempt, in the order they are
  made: \<open>Project i a verbose\<close> when the validity callback is bound to \<open>verbose\<close> and
  \<^verbatim>\<open>project\<close> is called (lines 445 to 456), \<open>SampleDefault i a verbose\<close> when the
  default sampler draws a state that is checked with \<open>verbose\<close> (lines 490 and 491).
\<close>

datatype event = Project nat nat bool | SampleDefault nat nat bool

text \<open>The variables of one call: the sampler, the output vector, \<^verbatim>\<open>success\<close>, the calls made.\<close>

record frame =
  sampler :: GoalRegionSampler
  sampled_states :: "state list"
  success :: bool
  events :: "event list"

definition max_attempts :: nat where
  "max_attempts = 2"

text \<open>Lines 434 to 440: the flag of attempt \<open>a\<close>, and the sampler with its counter.\<close>

definition verbose_flag :: "host \<Rightarrow> nat \<Rightarrow> nat \<Rightarrow> GoalRegionSampler \<Rightarrow> bool \<times> GoalRegionSampler" where
  "verbose_flag h i a s =
     (let max_attempts_div2 = max_attempts div 2 in
      if getStateCount h i a = 0 \<and> a \<ge> max_attempts_div2 then
        (if verbose_display s < 1 then (True, s\<lparr>verbose_display := verbose_display s + 1\<rparr>)
         else (False, s))
      else (False, s))"

text \<open>Lines 477 to 484.\<close>

definition count_invalid_sample :: "32 word \<Rightarrow> GoalRegionSampler \<Rightarrow> GoalRegionSampler" where
  "count_invalid_sample attempts_so_far s =
     (let s1 = s\<lparr>invalid_sampled_constraints := invalid_sampled_constraints s + 1\<rparr> in
      if \<not> warned_invalid_samples s1 \<and>
         invalid_sampled_constraints s1 \<ge> (attempts_so_far * 8) div 10
      then s1\<lparr>warned_invalid_samples := True\<rparr>
      else s1)"

text \<open>
  The body of the attempt loop, lines 434 to 507. The first component of the result tells
  whether the body leaves the loop by \<^verbatim>\<open>break\<close>. Without a constraint sampler the
  body calls \<^verbatim>\<open>default_sampler_->sampleUniform\<close> (line 490), which fails when
  \<^verbatim>\<open>default_sampler_\<close> is null. The buffer \<^verbatim>\<open>goal\<close> is written before each of its
  reads (by \<^verbatim>\<open>checkStateValidity\<close>, line 329, or by the default sampler), so it is a
  local value here.
\<close>

definition attempt :: "host \<Rightarrow> nat \<Rightarrow> 32 word \<Rightarrow> nat \<Rightarrow> frame \<Rightarrow> error + (bool \<times> frame)" where
  "attempt h i attempts_so_far a f =
     (case verbose_flag h i a (sampler f) of (verbose, s0) \<Rightarrow>
      (case constraint_sampler s0 of
         Some cs \<Rightarrow>
           (case project h i a verbose cs (work_state s0) of (projected, ws) \<Rightarrow>
            (let s1 = s0\<lparr>work_state := ws\<rparr>;
                 f1 = f\<lparr>sampler := s1, events := events f @ [Project i a verbose]\<rparr>
             in if projected then
                  (if decide h i a (kinematic_constraint_set s1) (work_state s1) verbose then
                     (let goal = copyToOMPLState h (work_state s1) in
                      if isValid h i a goal verbose then
                        Inr (True, f1\<lparr>sampled_states := sampled_states f1 @ [goal],
                                      sampler := queue_insert goal s1,
                                      success := True\<rparr>)
                      else Inr (False, f1))
                   else Inr (False, f1\<lparr>sampler := count_invalid_sample attempts_so_far s1\<rparr>))
                else Inr (False, f1)))
       | None \<Rightarrow>
           (case default_sampler s0 of
              None \<Rightarrow> Inl NullPointer
            | Some sampler_ptr \<Rightarrow>
                (let goal = default_sampleUniform h i a;
                     f1 = f\<lparr>sampler := s0, events := events f @ [SampleDefault i a verbose]\<rparr>
                 in if isValid h i a goal verbose then
                      (let s1 = s0\<lparr>work_state := copyToRobotState h (work_state s0) goal\<rparr>;
                           f2 = f1\<lparr>sampler := s1\<rparr>
                       in if decide h i a (kinematic_constraint_set s1) (work_state s1) verbose then
                            Inr (True, f2\<lparr>sampler := queue_insert goal s1, success := True\<rparr>)
                          else Inr (False, f2))
                    else Inr (False, f1)))))"

text \<open>The loop of line 432.\<close>

function attempt_loop :: "host \<Rightarrow> nat \<Rightarrow> 32 word \<Rightarrow> nat \<Rightarrow> frame \<Rightarrow> error + frame" where
  "attempt_loop h i attempts_so_far a f =
     (if a < max_attempts \<and> isSampling h i a then
        (case attempt h i attempts_so_far a f of
           Inl e \<Rightarrow> Inl e
         | Inr (True, f1) \<Rightarrow> Inr f1
         | Inr (False, f1) \<Rightarrow> attempt_loop h i attempts_so_far (Suc a) f1)
      else Inr f)"
  by pat_completeness auto
termination
  by (relation "measure (\<lambda>(h, i, attempts_so_far, a, f). max_attempts - a)") auto

declare attempt_loop.simps [simp del]

text \<open>Lines 362 to 367: the sampled position is written into the constraint of region \<open>i\<close>.\<close>

definition set_constraint_position :: "Constraints list \<Rightarrow> nat \<Rightarrow> SE3State \<Rightarrow> error + Constraints list" where
  "set_constraint_position cs i st =
     (case vector_at cs i of Inl e \<Rightarrow> Inl e | Inr c \<Rightarrow>
      (case vector_at (position_constraints c) 0 of Inl e \<Rightarrow> Inl e | Inr pc \<Rightarrow>
       (case vector_at (primitive_poses pc) 0 of Inl e \<Rightarrow> Inl e | Inr pp \<Rightarrow>
          (let pp1 = pp\<lparr>position_x := getX st, position_y := getY st, position_z := getZ st\<rparr>;
               pc1 = pc\<lparr>primitive_poses := (primitive_poses pc)[0 := pp1]\<rparr>;
               c1 = c\<lparr>position_constraints := (position_constraints c)[0 := pc1]\<rparr>
           in Inr (cs[i := c1])))))"

text \<open>Lines 369 to 400: the orientation of the constraint of region \<open>i\<close> on its free axes.\<close>

definition set_constraint_orientation ::
  "kinematics \<Rightarrow> WorkspaceGoalRegion \<Rightarrow> Constraints list \<Rightarrow> nat \<Rightarrow> SE3State \<Rightarrow> error + Constraints list" where
  "set_constraint_orientation k r cs i st =
     (if roll_free_value r \<or> pitch_free_value r \<or> yaw_free_value r then
        (case getRPY k (se3_rotation st) of (roll_sampled, pitch_sampled, yaw_sampled) \<Rightarrow>
         (case vector_at cs i of Inl e \<Rightarrow> Inl e | Inr c \<Rightarrow>
          (case vector_at (orientation_constraints c) 0 of Inl e \<Rightarrow> Inl e | Inr oc \<Rightarrow>
           (case getRPY k (orientation oc) of (roll, pitch, yaw) \<Rightarrow>
              (let q_new = createQuaternionFromRPY k
                             (if roll_free_value r then roll_sampled else roll)
                             (if pitch_free_value r then pitch_sampled else pitch)
                             (if yaw_free_value r then yaw_sampled else yaw);
                   oc1 = oc\<lparr>orientation := q_new\<rparr>;
                   c1 = c\<lparr>orientation_constraints := (orientation_constraints c)[0 := oc1]\<rparr>
               in Inr (cs[i := c1]))))))
      else Inr cs)"

text \<open>
  Lines 352 to 406 for region \<open>i\<close>: a pose is sampled, the constraint of the region is
  updated with it, the constraint set is rebuilt and a constraint sampler is selected.
\<close>

definition select_region_sampler ::
  "kinematics \<Rightarrow> host \<Rightarrow> nat \<Rightarrow> GoalRegionSampler \<Rightarrow> error + GoalRegionSampler" where
  "select_region_sampler k h i s =
     (case vector_at (se3_spaces s) i of Inl e \<Rightarrow> Inl e | Inr space \<Rightarrow>
      (case vector_at (se3_samplers s) i of Inl e \<Rightarrow> Inl e | Inr se3_sampler \<Rightarrow>
       (let st = se3_sampleUniform h i se3_sampler;
            s1 = s\<lparr>kinematic_constraint_set := []\<rparr>
        in case set_constraint_position (constrs s1) i st of Inl e \<Rightarrow> Inl e | Inr cs1 \<Rightarrow>
           (case set_constraint_orientation k (workspace_goal_regions s1 ! i) cs1 i st of
              Inl e \<Rightarrow> Inl e
            | Inr cs2 \<Rightarrow>
              (let s2 = s1\<lparr>constrs := cs2\<rparr>;
                   s3 = s2\<lparr>kinematic_constraint_set := kinematic_constraint_set s2 @ [cs2 ! i]\<rparr>;
                   s4 = s3\<lparr>constraint_sampler :=
                            (if selectSampler h i (kinematic_constraint_set s3)
                             then Some (kinematic_constraint_set s3) else None)\<rparr>
               in Inr s4)))))"

text \<open>
  The body of the loop over the regions, lines 352 to 509, for region \<open>i\<close> (with
  \<open>i < length (workspace_goal_regions (sampler f))\<close>, the loop's guard). The
  \<^verbatim>\<open>continue\<close> of line 428 skips the attempt loop.
\<close>

definition sample_region :: "kinematics \<Rightarrow> host \<Rightarrow> nat \<Rightarrow> frame \<Rightarrow> error + frame" where
  "sample_region k h i f =
     (case select_region_sampler k h i (sampler f) of
        Inl e \<Rightarrow> Inl e
      | Inr s4 \<Rightarrow>
          (let attempts_so_far = samplingAttemptsCount h i;
               f1 = f\<lparr>sampler := s4\<rparr>
           in if hasSolution h i then Inr f1
              else attempt_loop h i attempts_so_far 0 f1))"

text \<open>The loop of line 350.\<close>

function region_loop :: "kinematics \<Rightarrow> host \<Rightarrow> nat \<Rightarrow> frame \<Rightarrow> error + frame" where
  "region_loop k h i f =
     (if i < length (workspace_goal_regions (sampler f)) then
        (case sample_region k h i f of
           Inl e \<Rightarrow> Inl e
         | Inr f1 \<Rightarrow> region_loop k h (Suc i) f1)
      else Inr f)"
  by pat_completeness auto
termination
proof (relation "measure (\<lambda>(k, h, i, f). length (workspace_goal_regions (sampler f)) - i)")
  show "wf (measure (\<lambda>(k, h, i, f). length (workspace_goal_regions (sampler f)) - i))"
    by simp
next
  fix k :: kinematics and h :: host and i :: nat and f f1 :: frame
  assume guard: "i < length (workspace_goal_regions (sampler f))"
    and body: "sample_region k h i f = Inr f1"
  have loop_keeps:
    "attempt_loop h i n a g = Inr g' \<Longrightarrow>
     workspace_goal_regions (sampler g') = workspace_goal_regions (sampler g)"
    for n a g g'
  proof (induction h i n a g rule: attempt_loop.induct)
    case (1 h i n a g)
    show ?case
    proof (cases "a < max_attempts \<and> isSampling h i a")
      case False
      then have "attempt_loop h i n a g = Inr g"
        by (subst attempt_loop.simps) auto
      with "1.prems" show ?thesis by simp
    next
      case True
      then have unfold: "attempt_loop h i n a g =
          (case attempt h i n a g of
             Inl e \<Rightarrow> Inl e
           | Inr (True, f1) \<Rightarrow> Inr f1
           | Inr (False, f1) \<Rightarrow> attempt_loop h i n (Suc a) f1)"
        by (subst attempt_loop.simps) auto
      from unfold "1.prems" obtain b g1 where step: "attempt h i n a g = Inr (b, g1)"
        by (cases "attempt h i n a g") auto
      have flag_keeps:
        "workspace_goal_regions (snd (verbose_flag h i a (sampler g))) =
         workspace_goal_regions (sampler g)"
        by (simp add: verbose_flag_def Let_def)
      have keep: "workspace_goal_regions (sampler g1) = workspace_goal_regions (sampler g)"
        using step flag_keeps
        by (auto simp: attempt_def Let_def queue_insert_def count_invalid_sample_def
            split: prod.splits option.splits if_splits)
      show ?thesis
      proof (cases b)
        case True
        with unfold step keep "1.prems" show ?thesis
          by simp
      next
        case False
        with unfold step "1.prems" have next_run: "attempt_loop h i n (Suc a) g1 = Inr g'"
          by simp
        from \<open>a < max_attempts \<and> isSampling h i a\<close> step False next_run
        have "workspace_goal_regions (sampler g') = workspace_goal_regions (sampler g1)"
          by (intro "1.IH") simp_all
        with keep show ?thesis
          by simp
      qed
    qed
  qed
  have "workspace_goal_regions (sampler f1) = workspace_goal_regions (sampler f)"
    using body loop_keeps
    by (auto simp: sample_region_def select_region_sampler_def Let_def
        split: sum.splits if_splits)
  with guard
  show "((k, h, Suc i, f1), (k, h, i, f))
          \<in> measure (\<lambda>(k, h, i, f). length (workspace_goal_regions (sampler f)) - i)"
    by simp
qed

declare region_loop.simps [simp del]

text \<open>
  Lines 345 to 515. The result holds the returned flag, the sampler after the call, the
  output vector \<^verbatim>\<open>sampled_states\<close> and the calls made.
\<close>

definition sampleUsingConstraintSampler ::
  "kinematics \<Rightarrow> host \<Rightarrow> GoalRegionSampler \<Rightarrow> state list \<Rightarrow> error + (bool \<times> frame)" where
  "sampleUsingConstraintSampler k h s out =
     (let f0 = \<lparr>sampler = s, sampled_states = out, success = False, events = []\<rparr> in
      case region_loop k h 0 f0 of
        Inl e \<Rightarrow> Inl e
      | Inr f \<Rightarrow> (if success f then Inr (True, f) else Inr (False, f)))"

section \<open>The life of a sampler\<close>

text \<open>
  The calls that change a sampler after its construction: the sampling thread calls
  \<^verbatim>\<open>sampleUsingConstraintSampler\<close> (each time with the answers of that call and a
  fresh output vector), a planner calls \<^verbatim>\<open>addState\<close>, the owner calls
  \<^verbatim>\<open>clear\<close>. \<open>run\<close> performs a list of such calls one after the other and
  collects the events of all of them, each with the answers of the call that made it.
\<close>

datatype call = Generate host | AddState state | Clear

fun run ::
  "kinematics \<Rightarrow> call list \<Rightarrow> GoalRegionSampler \<Rightarrow> error + (GoalRegionSampler \<times> (host \<times> event) list)" where
  "run k [] s = Inr (s, [])"
| "run k (Generate h # cs) s =
     (case sampleUsingConstraintSampler k h s [] of
        Inl e \<Rightarrow> Inl e
      | Inr (b, f) \<Rightarrow>
          (case run k cs (sampler f) of
             Inl e \<Rightarrow> Inl e
           | Inr (s1, evs) \<Rightarrow> Inr (s1, map (Pair h) (events f) @ evs)))"
| "run k (AddState st # cs) s = run k cs (addState st s)"
| "run k (Clear # cs) s = run k cs (clear s)"

fun event_verbose :: "event \<Rightarrow> bool" where
  "event_verbose (Project i a verbose) = verbose"
| "event_verbose (SampleDefault i a verbose) = verbose"

fun event_region :: "event \<Rightarrow> nat" where
  "event_region (Project i a verbose) = i"
| "event_region (SampleDefault i a verbose) = i"

fun event_attempt :: "event \<Rightarrow> nat" where
  "event_attempt (Project i a verbose) = a"
| "event_attempt (SampleDefault i a verbose) = a"

section \<open>getBetterSolution\<close>

text \<open>
  The roadmap of the planner: the vertices in the order \<^verbatim>\<open>boost::vertices\<close> lists
  them, the state of each vertex, the connectivity test and the path construction.
\<close>

record roadmap =
  vertices :: "nat list"
  stateProperty :: "nat \<Rightarrow> state"
  sameComponent :: "nat \<Rightarrow> nat \<Rightarrow> bool"
  constructSolution :: "nat \<Rightarrow> nat \<Rightarrow> state list"

text \<open>A distance that starts at \<^verbatim>\<open>std::numeric_limits<double>::infinity()\<close>.\<close>

datatype distance = Finite real | Infinity

fun distance_less :: "distance \<Rightarrow> distance \<Rightarrow> bool" where
  "distance_less (Finite a) (Finite b) = (a < b)"
| "distance_less (Finite a) Infinity = True"
| "distance_less Infinity d = False"

text \<open>Lines 256 to 262; \<^verbatim>\<open>pow(v, 2.0)\<close> is the square.\<close>

definition gr_distance :: "WorkspaceGoalRegion \<Rightarrow> Affine3d \<Rightarrow> real" where
  "gr_distance r ee_pose =
     sqrt (((x_max r + x_min r) / 2.0 - translation_x ee_pose) ^ 2 +
           ((y_max r + y_min r) / 2.0 - translation_y ee_pose) ^ 2 +
           ((z_max r + z_min r) / 2.0 - translation_z ee_pose) ^ 2)"

text \<open>Lines 253 to 266: the loop over the regions, from region \<open>i\<close> on.\<close>

function region_distance :: "GoalRegionSampler \<Rightarrow> Affine3d \<Rightarrow> nat \<Rightarrow> distance \<Rightarrow> distance" where
  "region_distance s ee_pose i d =
     (if i < length (workspace_goal_regions s) then
        (let g = gr_distance (workspace_goal_regions s ! i) ee_pose in
         region_distance s ee_pose (Suc i) (if distance_less (Finite g) d then Finite g else d))
      else d)"
  by pat_completeness auto
termination
  by (relation "measure (\<lambda>(s, ee_pose, i, d). length (workspace_goal_regions s) - i)") auto

declare region_distance.simps [simp del]

text \<open>
  Lines 233 to 282: the loop over the vertices. It returns the list \<^verbatim>\<open>lst\<close> and, when
  a vertex holds the start state, that vertex with its distance (\<^verbatim>\<open>start_vertex_found\<close>).
  The \<^verbatim>\<open>break\<close> of line 280 ends the loop at that vertex.
\<close>

fun roadmap_scan ::
  "kinematics \<Rightarrow> GoalRegionSampler \<Rightarrow> roadmap \<Rightarrow> state \<Rightarrow> nat list \<Rightarrow> (distance \<times> nat) list \<Rightarrow>
   (distance \<times> nat) list \<times> (nat \<times> distance) option" where
  "roadmap_scan k s g start_state_roadmap [] lst = (lst, None)"
| "roadmap_scan k s g start_state_roadmap (v # vs) lst =
     (let ee_pose = getGlobalLinkTransform k (stateProperty g v);
          d = region_distance s ee_pose 0 Infinity;
          lst1 = lst @ [(d, v)]
      in if equalStates k start_state_roadmap (stateProperty g v) then (lst1, Some (v, d))
         else roadmap_scan k s g start_state_roadmap vs lst1)"

text \<open>
  \<^verbatim>\<open>lst.sort()\<close>: the tuples in ascending order of \<^verbatim>\<open>operator<\<close>, which compares
  the distance first and the vertex second; equal elements keep their order.
\<close>

fun tuple_less :: "distance \<times> nat \<Rightarrow> distance \<times> nat \<Rightarrow> bool" where
  "tuple_less (d1, v1) (d2, v2) =
     (distance_less d1 d2 \<or> (\<not> distance_less d2 d1 \<and> v1 < v2))"

fun sort_insert :: "distance \<times> nat \<Rightarrow> (distance \<times> nat) list \<Rightarrow> (distance \<times> nat) list" where
  "sort_insert e [] = [e]"
| "sort_insert e (y # ys) = (if tuple_less y e then y # sort_insert e ys else e # y # ys)"

definition list_sort :: "(distance \<times> nat) list \<Rightarrow> (distance \<times> nat) list" where
  "list_sort xs = foldr sort_insert xs []"

text \<open>
  Lines 289 to 309: the walk over the sorted list. The result is the internal path, or
  \<open>None\<close> for the null pointer.
\<close>

fun find_internal_path ::
  "kinematics \<Rightarrow> roadmap \<Rightarrow> nat \<Rightarrow> (distance \<times> nat) list \<Rightarrow> state list option" where
  "find_internal_path k g start_vertex [] = None"
| "find_internal_path k g start_vertex (element # rest) =
     (if sameComponent g start_vertex (snd element) then
        (if \<not> equalStates k (stateProperty g start_vertex) (stateProperty g (snd element))
         then Some (constructSolution g start_vertex (snd element))
         else None)
      else find_internal_path k g start_vertex rest)"

text \<open>
  Lines 217 to 324. The result is the solution path after the call. \<^verbatim>\<open>back()\<close> of an
  empty path is undefined behaviour.
\<close>

definition getBetterSolution ::
  "kinematics \<Rightarrow> GoalRegionSampler \<Rightarrow> roadmap \<Rightarrow> state list \<Rightarrow> error + state list" where
  "getBetterSolution k s g solution_path =
     (if solution_path = [] then Inl OutOfRange
      else
        (let start_state_roadmap = last solution_path in
         case roadmap_scan k s g start_state_roadmap (vertices g) [] of
           (lst, None) \<Rightarrow> Inr solution_path
         | (lst, Some (start_vertex, start_distance)) \<Rightarrow>
             (case find_internal_path k g start_vertex (list_sort lst) of
                None \<Rightarrow> Inr solution_path
              | Some roadmap_internal_path \<Rightarrow> Inr (solution_path @ drop 1 roadmap_internal_path))))"

section \<open>Observations used in the statements\<close>

text \<open>The events of a call, and of a list of calls; empty when a call fails.\<close>

definition call_events :: "error + (bool \<times> frame) \<Rightarrow> event list" where
  "call_events r = (case r of Inl e \<Rightarrow> [] | Inr (b, f) \<Rightarrow> events f)"

definition run_events :: "error + (GoalRegionSampler \<times> (host \<times> event) list) \<Rightarrow> event list" where
  "run_events r = (case r of Inl e \<Rightarrow> [] | Inr (s, evs) \<Rightarrow> map snd evs)"


text \<open>The attempts made for region \<open>i\<close>.\<close>

definition attempts_of :: "nat \<Rightarrow> event list \<Rightarrow> event list" where
  "attempts_of i evs = filter (\<lambda>e. event_region e = i) evs"


text \<open>
  An attempt is made while sampling: its index is below \<open>max_attempts\<close> and
  \<^verbatim>\<open>isSampling\<close> held at every check of its region up to it.
\<close>

definition while_sampling :: "host \<Rightarrow> event \<Rightarrow> bool" where
  "while_sampling h e =
     (event_attempt e < max_attempts \<and>
      (\<forall>a' \<le> event_attempt e. isSampling h (event_region e) a'))"


text \<open>
  How many more times the flag may be set: once while \<open>verbose_display\<close> is below 1.
\<close>

definition verbose_budget :: "GoalRegionSampler \<Rightarrow> nat" where
  "verbose_budget s = (if verbose_display s < 1 then 1 else 0)"

definition verbose_count :: "event list \<Rightarrow> nat" where
  "verbose_count evs = length (filter event_verbose evs)"

definition verbose_late :: "host \<Rightarrow> event list \<Rightarrow> bool" where
  "verbose_late h evs =
     (\<forall>e \<in> set evs. event_verbose e \<longrightarrow>
        max_attempts div 2 \<le> event_attempt e \<and>
        getStateCount h (event_region e) (event_attempt e) = 0)"


text \<open>
  The constraint check of attempt \<open>a\<close> fails (the \<^verbatim>\<open>else\<close> of line 475): there is a
  constraint sampler, its projection succeeds and the projected state does not satisfy
  the constraints.
\<close>

definition constraint_check_failed :: "host \<Rightarrow> nat \<Rightarrow> nat \<Rightarrow> frame \<Rightarrow> bool" where
  "constraint_check_failed h i a f =
     (case verbose_flag h i a (sampler f) of (verbose, s0) \<Rightarrow>
      (case constraint_sampler s0 of
         None \<Rightarrow> False
       | Some cs \<Rightarrow>
           (case project h i a verbose cs (work_state s0) of (projected, ws) \<Rightarrow>
              projected \<and> \<not> decide h i a (kinematic_constraint_set s0) ws verbose)))"








section \<open>Well-formed samplers and example inputs\<close>


text \<open>
  A toy robot whose first three joint values are the position of the end effector and
  whose next three are its roll, pitch and yaw; a quaternion stores the three angles in
  its first three components. The fallback distance is 7 everywhere.
\<close>

definition example_kinematics :: kinematics where
  "example_kinematics =
     \<lparr>getGlobalLinkTransform =
        (\<lambda>st. \<lparr>translation_x = st ! 0, translation_y = st ! 1, translation_z = st ! 2,
               rotation = \<lparr>q_x = st ! 3, q_y = st ! 4, q_z = st ! 5, q_w = 0\<rparr>\<rparr>),
      getRPY = (\<lambda>q. (q_x q, q_y q, q_z q)),
      createQuaternionFromRPY = (\<lambda>r p y. \<lparr>q_x = r, q_y = p, q_z = y, q_w = 0\<rparr>),
      base_distanceGoal = (\<lambda>st. 7),
      equalStates = (\<lambda>a b. a = b)\<rparr>"

text \<open>The box \<open>[0,1] \<times> [0,1] \<times> [0,1]\<close> with the given free axes.\<close>

definition unit_box :: "bool \<Rightarrow> bool \<Rightarrow> bool \<Rightarrow> WorkspaceGoalRegion" where
  "unit_box fr fp fy =
     \<lparr>x_min = 0, x_max = 1, y_min = 0, y_max = 1, z_min = 0, z_max = 1,
      roll_free_value = fr, pitch_free_value = fp, yaw_free_value = fy\<rparr>"

text \<open>A constraint at the origin with roll, pitch and yaw 0.\<close>

definition example_constraint :: Constraints where
  "example_constraint =
     \<lparr>position_constraints =
        [\<lparr>primitive_poses = [\<lparr>position_x = 0, position_y = 0, position_z = 0\<rparr>]\<rparr>],
      orientation_constraints = [\<lparr>orientation = \<lparr>q_x = 0, q_y = 0, q_z = 0, q_w = 0\<rparr>\<rparr>]\<rparr>"

definition example_sampler :: "WorkspaceGoalRegion \<Rightarrow> GoalRegionSampler" where
  "example_sampler r = GoalRegionSampler_new [] [example_constraint] [r]"

text \<open>
  A host that never has a solution, keeps sampling, counts one sampling attempt and no
  sampled state. The four flags tell whether a constraint sampler is found, whether
  projection succeeds, whether the constraints are satisfied and whether states are valid.
\<close>

definition example_host :: "bool \<Rightarrow> bool \<Rightarrow> bool \<Rightarrow> bool \<Rightarrow> host" where
  "example_host sel projected satisfied valid =
     \<lparr>se3_sampleUniform =
        (\<lambda>i b. \<lparr>getX = 0.5, getY = 0.5, getZ = 0.5,
                se3_rotation = \<lparr>q_x = 0, q_y = 0, q_z = 0, q_w = 0\<rparr>\<rparr>),
      selectSampler = (\<lambda>i cs. sel),
      samplingAttemptsCount = (\<lambda>i. 1),
      hasSolution = (\<lambda>i. False),
      isSampling = (\<lambda>i a. True),
      getStateCount = (\<lambda>i a. 0),
      project = (\<lambda>i a verbose cs ws. (projected, [1])),
      decide = (\<lambda>i a kcs ws verbose. satisfied),
      isValid = (\<lambda>i a st verbose. valid),
      copyToOMPLState = (\<lambda>ws. ws),
      copyToRobotState = (\<lambda>ws st. st),
      default_sampleUniform = (\<lambda>i a. [2])\<rparr>"


text \<open>A frame at the start of an attempt loop, with the given constraint sampler.\<close>

definition example_frame :: "Constraints list option \<Rightarrow> frame" where
  "example_frame cs =
     \<lparr>sampler = (example_sampler (unit_box True True True))\<lparr>constraint_sampler := cs\<rparr>,
      sampled_states = [], success = False, events = []\<rparr>"


text \<open>
  A frame at the start of an attempt loop without a constraint sampler and with
  \<^verbatim>\<open>default_sampler_\<close> set, as no function of the file leaves it.
\<close>

definition example_fallback_frame :: frame where
  "example_fallback_frame =
     \<lparr>sampler = (example_sampler (unit_box True True True))\<lparr>default_sampler := Some StateSampler\<rparr>,
      sampled_states = [], success = False, events = []\<rparr>"


text \<open>
  The scenario of the roadmap: vertex 0 is A (at distance 5 from the centre of the box),
  vertex 1 is B (distance 3, connected to A), vertex 2 is C (distance 1, in another
  component). The argument is the order in which the vertices are listed.
\<close>

definition centred_box :: WorkspaceGoalRegion where
  "centred_box =
     \<lparr>x_min = -1, x_max = 1, y_min = -1, y_max = 1, z_min = -1, z_max = 1,
      roll_free_value = True, pitch_free_value = True, yaw_free_value = True\<rparr>"

definition example_roadmap :: "nat list \<Rightarrow> roadmap" where
  "example_roadmap vs =
     \<lparr>vertices = vs,
      stateProperty = (\<lambda>v. if v = 0 then [5, 0, 0, 0, 0, 0]
                           else if v = 1 then [3, 0, 0, 0, 0, 0] else [1, 0, 0, 0, 0, 0]),
      sameComponent = (\<lambda>a b. (a = 2) = (b = 2)),
      constructSolution = (\<lambda>a b. [[5, 0, 0, 0, 0, 0], [4, 0, 0, 0, 0, 0], [3, 0, 0, 0, 0, 0]])\<rparr>"


section \<open>Properties of distanceGoal\<close>

lemma inside_goal_region_total:
  assumes "i < length (constrs s)" "orientation_constraints (constrs s ! i) \<noteq> []"
  shows "\<exists>b. inside_goal_region k s p i = Inr b"
  using assms by (auto simp: inside_goal_region_def Let_def vector_at_def)

lemma distanceGoal_loop_stop:
  assumes "i < length (workspace_goal_regions s)" "inside_goal_region k s p i = Inr True"
  shows "distanceGoal_loop k s st p i = Inr 0"
  using assms by (subst distanceGoal_loop.simps) simp

lemma distanceGoal_loop_next:
  assumes "i < length (workspace_goal_regions s)" "inside_goal_region k s p i = Inr False"
  shows "distanceGoal_loop k s st p i = distanceGoal_loop k s st p (Suc i)"
  using assms by (subst distanceGoal_loop.simps) simp

lemma distanceGoal_loop_reaches:
  assumes "i < length (workspace_goal_regions s)"
    and "inside_goal_region k s p i = Inr True"
    and "\<forall>j<i. j < length (constrs s) \<and> orientation_constraints (constrs s ! j) \<noteq> []"
    and "j \<le> i"
  shows "distanceGoal_loop k s st p j = Inr 0"
  using assms(4)
proof (induction "i - j" arbitrary: j)
  case 0
  then have "j = i" by simp
  with assms(1,2) show ?case by (simp add: distanceGoal_loop_stop)
next
  case (Suc n)
  then have lt: "j < i" and IH: "distanceGoal_loop k s st p (Suc j) = Inr 0"
    by auto
  from lt assms(1) have jr: "j < length (workspace_goal_regions s)" by simp
  from lt assms(3) obtain b where b: "inside_goal_region k s p j = Inr b"
    using inside_goal_region_total by blast
  show ?case
  proof (cases b)
    case True
    with b jr show ?thesis by (simp add: distanceGoal_loop_stop)
  next
    case False
    with b jr IH show ?thesis by (simp add: distanceGoal_loop_next)
  qed
qed

text \<open>
  C1. The claim: a configuration whose end-effector position is outside every region's
  box in one of x, y, z gets the fallback distance, and in particular a z-coordinate
  outside \<open>[z_min, z_max]\<close> is never reported as inside. The box test of lines 155 to
  158 compares x and y only. For the unit box with all axes free and the end effector
  at \<open>(0.5, 0.5, 5)\<close>, whose z is above \<open>z_max = 1\<close>, \<open>distanceGoal\<close> returns 0
  and not the fallback distance 7.
\<close>

theorem distanceGoal_ignores_z:
  "distanceGoal example_kinematics (example_sampler (unit_box True True True))
     [0.5, 0.5, 5, 0, 0, 0] = Inr 0
   \<and> \<not> (translation_z (getGlobalLinkTransform example_kinematics [0.5, 0.5, 5, 0, 0, 0])
        \<le> z_max (unit_box True True True))
   \<and> base_distanceGoal example_kinematics [0.5, 0.5, 5, 0, 0, 0] = 7"
  by (simp add: distanceGoal_def distanceGoal_loop.simps inside_goal_region_def
      example_kinematics_def example_sampler_def GoalRegionSampler_new_def unit_box_def)

text \<open>
  C3. Region \<open>i\<close> has its roll axis fixed, its constraint has roll 0, the end effector
  is inside the region's box and its roll differs from 0 by 0.5 rad. Then the loop body
  does not return 0 for region \<open>i\<close>: the check fails and the loop goes on with the next
  region.
\<close>

theorem fixed_roll_rejects_region:
  assumes "i < length (workspace_goal_regions s)"
    and "r = workspace_goal_regions s ! i"
    and "x_min r \<le> translation_x p" "translation_x p \<le> x_max r"
    and "y_min r \<le> translation_y p" "translation_y p \<le> y_max r"
    and "z_min r \<le> translation_z p" "translation_z p \<le> z_max r"
    and "\<not> roll_free_value r"
    and "i < length (constrs s)"
    and "orientation_constraints (constrs s ! i) = oc # ocs"
    and "fst (getRPY k (orientation oc)) = 0"
    and "\<bar>fst (getRPY k (rotation p)) - 0\<bar> = 0.5"
  shows "inside_goal_region k s p i = Inr False \<and>
         distanceGoal_loop k s st p i = distanceGoal_loop k s st p (Suc i)"
proof -
  have "\<not> meet_orientation_const r (getRPY k (orientation oc)) (getRPY k (rotation p))"
    using assms(9,12,13)
    by (cases "getRPY k (orientation oc)"; cases "getRPY k (rotation p)")
       (auto simp: meet_orientation_const_def cxx_abs_def Let_def)
  then have "inside_goal_region k s p i = Inr False"
    using assms by (simp add: inside_goal_region_def Let_def vector_at_def)
  with assms(1) show ?thesis by (simp add: distanceGoal_loop_next)
qed

theorem fixed_roll_rejects_region_witness:
  "\<not> roll_free_value (unit_box False True True)
   \<and> fst (getRPY example_kinematics \<lparr>q_x = 0, q_y = 0, q_z = 0, q_w = 0\<rparr>) = 0
   \<and> \<bar>fst (getRPY example_kinematics
            (rotation (getGlobalLinkTransform example_kinematics [0.5, 0.5, 0.5, 0.5, 0, 0]))) - 0\<bar> = 0.5
   \<and> inside_goal_region example_kinematics (example_sampler (unit_box False True True))
       (getGlobalLinkTransform example_kinematics [0.5, 0.5, 0.5, 0.5, 0, 0]) 0 = Inr False
   \<and> distanceGoal example_kinematics (example_sampler (unit_box False True True))
       [0.5, 0.5, 0.5, 0.5, 0, 0] = Inr 7"
  using fixed_roll_rejects_region [of 0 "example_sampler (unit_box False True True)"
      "unit_box False True True"
      "getGlobalLinkTransform example_kinematics [0.5, 0.5, 0.5, 0.5, 0, 0]"
      "\<lparr>orientation = \<lparr>q_x = 0, q_y = 0, q_z = 0, q_w = 0\<rparr>\<rparr>" "[]" example_kinematics
      "[0.5, 0.5, 0.5, 0.5, 0, 0]"]
  by (simp add: example_kinematics_def example_sampler_def GoalRegionSampler_new_def
      unit_box_def example_constraint_def distanceGoal_def distanceGoal_loop.simps)

text \<open>
  C4. The end effector of the configuration is inside the box of region \<open>i\<close> in x, y
  and z, and the region has roll, pitch and yaw free. Then \<open>distanceGoal\<close> returns
  exactly 0. The regions before \<open>i\<close> are read first; each of them has its orientation
  constraint.
\<close>

theorem distanceGoal_free_region_zero:
  assumes "i < length (workspace_goal_regions s)"
    and "r = workspace_goal_regions s ! i"
    and "p = getGlobalLinkTransform k st"
    and "x_min r \<le> translation_x p" "translation_x p \<le> x_max r"
    and "y_min r \<le> translation_y p" "translation_y p \<le> y_max r"
    and "z_min r \<le> translation_z p" "translation_z p \<le> z_max r"
    and "roll_free_value r" "pitch_free_value r" "yaw_free_value r"
    and "\<forall>j<i. j < length (constrs s) \<and> orientation_constraints (constrs s ! j) \<noteq> []"
  shows "distanceGoal k s st = Inr 0"
proof -
  have "inside_goal_region k s p i = Inr True"
    using assms by (simp add: inside_goal_region_def Let_def)
  with assms(1,13) have "distanceGoal_loop k s st p 0 = Inr 0"
    by (intro distanceGoal_loop_reaches [where i = i]) simp_all
  with assms(3) show ?thesis by (simp add: distanceGoal_def)
qed

theorem distanceGoal_free_region_zero_witness:
  "x_min (unit_box True True True) \<le> 0.5 \<and> 0.5 \<le> x_max (unit_box True True True)
   \<and> y_min (unit_box True True True) \<le> 0.5 \<and> 0.5 \<le> y_max (unit_box True True True)
   \<and> z_min (unit_box True True True) \<le> 0.5 \<and> 0.5 \<le> z_max (unit_box True True True)
   \<and> distanceGoal example_kinematics
       (GoalRegionSampler_new [] [example_constraint, example_constraint]
          [unit_box False True True, unit_box True True True])
       [0.5, 0.5, 0.5, 0.5, 0, 0] = Inr 0"
  using distanceGoal_free_region_zero [of 1
      "GoalRegionSampler_new [] [example_constraint, example_constraint]
          [unit_box False True True, unit_box True True True]"
      "unit_box True True True"
      "getGlobalLinkTransform example_kinematics [0.5, 0.5, 0.5, 0.5, 0, 0]"
      example_kinematics "[0.5, 0.5, 0.5, 0.5, 0, 0]"]
  by (simp add: example_kinematics_def GoalRegionSampler_new_def unit_box_def
      example_constraint_def)

section \<open>Rules for the two loops of sampleUsingConstraintSampler\<close>

lemma attempt_loop_stop:
  "\<not> (a < max_attempts \<and> isSampling h i a) \<Longrightarrow> attempt_loop h i n a f = Inr f"
  by (subst attempt_loop.simps) auto

lemma attempt_loop_step:
  "a < max_attempts \<Longrightarrow> isSampling h i a \<Longrightarrow> attempt h i n a f = Inr (b, f1) \<Longrightarrow>
   attempt_loop h i n a f = (if b then Inr f1 else attempt_loop h i n (Suc a) f1)"
  by (subst attempt_loop.simps) auto

lemma attempt_loop_fail:
  "a < max_attempts \<Longrightarrow> isSampling h i a \<Longrightarrow> attempt h i n a f = Inl e \<Longrightarrow>
   attempt_loop h i n a f = Inl e"
  by (subst attempt_loop.simps) auto

lemma attempt_loop_rule:
  assumes step: "\<And>a f b f1. a < max_attempts \<Longrightarrow> isSampling h i a \<Longrightarrow>
                   attempt h i n a f = Inr (b, f1) \<Longrightarrow> Q a f \<Longrightarrow>
                   (if b then R f1 else Q (Suc a) f1)"
    and stop: "\<And>a f. \<not> (a < max_attempts \<and> isSampling h i a) \<Longrightarrow> Q a f \<Longrightarrow> R f"
    and init: "Q a f"
    and run: "attempt_loop h i n a f = Inr f'"
  shows "R f'"
  using init run
proof (induction "max_attempts - a" arbitrary: a f)
  case 0
  then have ns: "\<not> (a < max_attempts \<and> isSampling h i a)" by simp
  from stop [OF ns "0.prems"(1)] ns "0.prems"(2) show ?case by (simp add: attempt_loop_stop)
next
  case (Suc m)
  then have lt: "a < max_attempts" by simp
  show ?case
  proof (cases "isSampling h i a")
    case False
    then have ns: "\<not> (a < max_attempts \<and> isSampling h i a)" by simp
    from stop [OF ns Suc.prems(1)] ns Suc.prems(2) show ?thesis by (simp add: attempt_loop_stop)
  next
    case True
    from Suc.prems(2) lt True obtain b f1 where st: "attempt h i n a f = Inr (b, f1)"
      by (cases "attempt h i n a f") (auto simp: attempt_loop_fail)
    from step [OF lt True st Suc.prems(1)] have c: "if b then R f1 else Q (Suc a) f1" .
    show ?thesis
    proof (cases b)
      case True
      with c lt \<open>isSampling h i a\<close> st Suc.prems(2) show ?thesis
        by (simp add: attempt_loop_step)
    next
      case False
      with c have q: "Q (Suc a) f1" by simp
      from False lt \<open>isSampling h i a\<close> st Suc.prems(2)
      have r: "attempt_loop h i n (Suc a) f1 = Inr f'" by (simp add: attempt_loop_step)
      from Suc.hyps(2) have "m = max_attempts - Suc a" by simp
      from Suc.hyps(1) [OF this q r] show ?thesis .
    qed
  qed
qed

lemma region_loop_stop:
  "\<not> i < length (workspace_goal_regions (sampler f)) \<Longrightarrow> region_loop k h i f = Inr f"
  by (subst region_loop.simps) simp

lemma region_loop_step:
  "i < length (workspace_goal_regions (sampler f)) \<Longrightarrow>
   region_loop k h i f = (case sample_region k h i f of Inl e \<Rightarrow> Inl e | Inr f1 \<Rightarrow> region_loop k h (Suc i) f1)"
  by (subst region_loop.simps) simp

lemma region_loop_rule:
  assumes step: "\<And>i f f1. i < length (workspace_goal_regions (sampler f)) \<Longrightarrow>
                   sample_region k h i f = Inr f1 \<Longrightarrow> Q i f \<Longrightarrow> Q (Suc i) f1"
    and init: "Q i f"
    and run: "region_loop k h i f = Inr f'"
  shows "\<exists>j. Q j f'"
  using step init run
proof (induction k h i f rule: region_loop.induct)
  case (1 k h i f)
  note step = "1.prems"(1)
  show ?case
  proof (cases "i < length (workspace_goal_regions (sampler f))")
    case False
    with "1.prems"(2,3) show ?thesis by (auto simp: region_loop_stop)
  next
    case True
    with "1.prems"(3) obtain f1 where f1: "sample_region k h i f = Inr f1"
      and r: "region_loop k h (Suc i) f1 = Inr f'"
      by (auto simp: region_loop_step split: sum.splits)
    from step [OF True f1 "1.prems"(2)] have "Q (Suc i) f1" .
    from "1.IH" [OF True f1 step this r] show ?thesis by simp
  qed
qed

section \<open>One attempt\<close>

lemma verbose_flag_sampler:
  assumes "verbose_flag h i a s = (v, s0)"
  shows "s0 = (if v then s\<lparr>verbose_display := verbose_display s + 1\<rparr> else s)"
  using assms by (auto simp: verbose_flag_def Let_def split: if_splits)

lemma verbose_flag_true:
  assumes "verbose_flag h i a s = (True, s0)"
  shows "getStateCount h i a = 0 \<and> max_attempts div 2 \<le> a \<and> verbose_display s < 1"
  using assms by (auto simp: verbose_flag_def Let_def split: if_splits)

lemma verbose_flag_budget:
  assumes "verbose_flag h i a s = (v, s0)"
  shows "(if v then 1 else 0) + verbose_budget s0 \<le> verbose_budget s"
  using assms
  by (auto simp: verbose_flag_def Let_def verbose_budget_def split: if_splits)

lemma verbose_flag_keeps:
  assumes "verbose_flag h i a s = (v, s0)"
  shows "goals_priority_queue s0 = goals_priority_queue s \<and>
         workspace_goal_regions s0 = workspace_goal_regions s \<and>
         constrs s0 = constrs s \<and> se3_spaces s0 = se3_spaces s \<and>
         se3_samplers s0 = se3_samplers s \<and>
         warned_invalid_samples s0 = warned_invalid_samples s \<and>
         invalid_sampled_constraints s0 = invalid_sampled_constraints s \<and>
         constraint_sampler s0 = constraint_sampler s \<and>
         default_sampler s0 = default_sampler s \<and>
         kinematic_constraint_set s0 = kinematic_constraint_set s \<and>
         work_state s0 = work_state s"
  using assms by (auto simp: verbose_flag_def Let_def split: if_splits)

lemmas attempt_unfold = attempt_def Let_def queue_insert_def count_invalid_sample_def

lemma attempt_events:
  assumes "attempt h i n a f = Inr (b, f1)" "verbose_flag h i a (sampler f) = (v, s0)"
  shows "events f1 = events f @
           [if constraint_sampler (sampler f) = None then SampleDefault i a v else Project i a v]"
  using assms verbose_flag_sampler [OF assms(2)]
  by (cases v) (auto simp: attempt_unfold split: option.splits prod.splits if_splits)

lemma attempt_verbose_display:
  assumes "attempt h i n a f = Inr (b, f1)" "verbose_flag h i a (sampler f) = (v, s0)"
  shows "verbose_display (sampler f1) = verbose_display s0"
  using assms
  by (auto simp: attempt_unfold split: option.splits prod.splits if_splits)

lemma attempt_event:
  assumes "attempt h i n a f = Inr (b, f1)"
  shows "\<exists>e. events f1 = events f @ [e] \<and> event_region e = i \<and> event_attempt e = a \<and>
           (event_verbose e \<longrightarrow> getStateCount h i a = 0 \<and> max_attempts div 2 \<le> a) \<and>
           (if event_verbose e then 1 else 0) + verbose_budget (sampler f1) \<le> verbose_budget (sampler f)"
proof -
  obtain v s0 where vf: "verbose_flag h i a (sampler f) = (v, s0)"
    by (cases "verbose_flag h i a (sampler f)")
  let ?e = "if constraint_sampler (sampler f) = None then SampleDefault i a v else Project i a v"
  have ev: "events f1 = events f @ [?e]"
    using attempt_events [OF assms vf] .
  have vd: "verbose_budget (sampler f1) = verbose_budget s0"
    using attempt_verbose_display [OF assms vf] by (simp add: verbose_budget_def)
  have e: "event_region ?e = i" "event_attempt ?e = a" "event_verbose ?e = v"
    by simp_all
  have t: "v \<longrightarrow> getStateCount h i a = 0 \<and> max_attempts div 2 \<le> a"
    using vf verbose_flag_true [of h i a "sampler f" s0] by auto
  have "(if v then 1 else 0) + verbose_budget (sampler f1) \<le> verbose_budget (sampler f)"
    using verbose_flag_budget [OF vf] vd by simp
  with ev e t show ?thesis by (intro exI [of _ ?e]) simp
qed



lemma attempt_warned:
  assumes "attempt h i n a f = Inr (b, f1)" "warned_invalid_samples (sampler f)"
  shows "warned_invalid_samples (sampler f1)"
proof -
  obtain v s0 where vf: "verbose_flag h i a (sampler f) = (v, s0)"
    by (cases "verbose_flag h i a (sampler f)")
  show ?thesis
    using assms vf verbose_flag_keeps [OF vf]
    by (auto simp: attempt_unfold split: option.splits prod.splits if_splits)
qed


lemma attempt_null:
  assumes "constraint_sampler (sampler f) = None" "default_sampler (sampler f) = None"
  shows "attempt h i n a f = Inl NullPointer"
proof -
  obtain v s0 where vf: "verbose_flag h i a (sampler f) = (v, s0)"
    by (cases "verbose_flag h i a (sampler f)")
  show ?thesis
    using assms vf verbose_flag_keeps [OF vf]
    by (simp add: attempt_def)
qed

section \<open>The verbose flag\<close>

lemma select_region_sampler_keeps:
  assumes "select_region_sampler k h i s = Inr s4"
  shows "goals_priority_queue s4 = goals_priority_queue s \<and>
         verbose_display s4 = verbose_display s \<and>
         warned_invalid_samples s4 = warned_invalid_samples s \<and>
         invalid_sampled_constraints s4 = invalid_sampled_constraints s \<and>
         workspace_goal_regions s4 = workspace_goal_regions s \<and>
         se3_spaces s4 = se3_spaces s \<and> se3_samplers s4 = se3_samplers s \<and>
         default_sampler s4 = default_sampler s \<and>
         work_state s4 = work_state s"
  using assms
  by (auto simp: select_region_sampler_def Let_def split: sum.splits)

lemma sample_region_cases:
  assumes "sample_region k h i f = Inr f1"
  shows "\<exists>s4. select_region_sampler k h i (sampler f) = Inr s4 \<and>
           (f1 = f\<lparr>sampler := s4\<rparr> \<or>
            attempt_loop h i (samplingAttemptsCount h i) 0 (f\<lparr>sampler := s4\<rparr>) = Inr f1)"
  using assms
  by (auto simp: sample_region_def Let_def split: sum.splits if_splits)

lemma attempt_loop_verbose:
  assumes "attempt_loop h i n a f = Inr f'"
    and "verbose_late h (events f)" "verbose_count (events f) + verbose_budget (sampler f) \<le> c"
  shows "verbose_late h (events f') \<and>
         verbose_count (events f') + verbose_budget (sampler f') \<le> c"
proof (rule attempt_loop_rule [where
      Q = "\<lambda>a f. verbose_late h (events f) \<and> verbose_count (events f) + verbose_budget (sampler f) \<le> c",
      OF _ _ _ assms(1)])
  show "verbose_late h (events f) \<and> verbose_count (events f) + verbose_budget (sampler f) \<le> c"
    using assms by simp
next
  fix a :: nat and f f1 :: frame and b :: bool
  assume st: "attempt h i n a f = Inr (b, f1)"
    and Q: "verbose_late h (events f) \<and> verbose_count (events f) + verbose_budget (sampler f) \<le> c"
  from attempt_event [OF st] obtain e where e: "events f1 = events f @ [e]"
    "event_region e = i" "event_attempt e = a"
    "event_verbose e \<longrightarrow> getStateCount h i a = 0 \<and> max_attempts div 2 \<le> a"
    "(if event_verbose e then 1 else 0) + verbose_budget (sampler f1) \<le> verbose_budget (sampler f)"
    by blast
  have "verbose_late h (events f1)"
    using Q e by (auto simp: verbose_late_def)
  moreover have "verbose_count (events f1) + verbose_budget (sampler f1) \<le> c"
    using Q e by (auto simp: verbose_count_def split: if_splits)
  ultimately
  show "if b then verbose_late h (events f1) \<and> verbose_count (events f1) + verbose_budget (sampler f1) \<le> c
        else verbose_late h (events f1) \<and> verbose_count (events f1) + verbose_budget (sampler f1) \<le> c"
    by simp
qed simp

lemma sample_region_verbose:
  assumes "sample_region k h i f = Inr f1"
    and "verbose_late h (events f) \<and> verbose_count (events f) + verbose_budget (sampler f) \<le> c"
  shows "verbose_late h (events f1) \<and> verbose_count (events f1) + verbose_budget (sampler f1) \<le> c"
proof -
  from sample_region_cases [OF assms(1)] obtain s4
    where s4: "select_region_sampler k h i (sampler f) = Inr s4"
      and f1: "f1 = f\<lparr>sampler := s4\<rparr> \<or>
            attempt_loop h i (samplingAttemptsCount h i) 0 (f\<lparr>sampler := s4\<rparr>) = Inr f1"
    by blast
  define g where "g = f\<lparr>sampler := s4\<rparr>"
  have g: "events g = events f"
    "verbose_display (sampler g) = verbose_display (sampler f)"
    "f1 = g \<or> attempt_loop h i (samplingAttemptsCount h i) 0 g = Inr f1"
    using select_region_sampler_keeps [OF s4] f1 by (simp_all add: g_def)
  from g assms(2) have G: "verbose_late h (events g)"
    "verbose_count (events g) + verbose_budget (sampler g) \<le> c"
    by (simp_all add: verbose_budget_def)
  from g(3) show ?thesis
  proof
    assume "f1 = g" with G show ?thesis by simp
  next
    assume "attempt_loop h i (samplingAttemptsCount h i) 0 g = Inr f1"
    from attempt_loop_verbose [OF this G] show ?thesis .
  qed
qed

lemma call_verbose:
  assumes "sampleUsingConstraintSampler k h s out = Inr (b, f)"
  shows "verbose_late h (events f) \<and>
         verbose_count (events f) + verbose_budget (sampler f) \<le> verbose_budget s"
proof -
  let ?f0 = "\<lparr>sampler = s, sampled_states = out, success = False, events = []\<rparr>"
  let ?Q = "\<lambda>(j::nat) f. verbose_late h (events f) \<and>
              verbose_count (events f) + verbose_budget (sampler f) \<le> verbose_budget s"
  from assms have r: "region_loop k h 0 ?f0 = Inr f"
    by (auto simp: sampleUsingConstraintSampler_def Let_def split: sum.splits if_splits)
  have "\<exists>j. ?Q j f"
  proof (rule region_loop_rule [where Q = ?Q, OF _ _ r])
    show "?Q 0 ?f0" by (simp add: verbose_late_def verbose_count_def)
  next
    fix i :: nat and f f1 :: frame
    assume "sample_region k h i f = Inr f1" "?Q i f"
    then show "?Q (Suc i) f1" by (rule sample_region_verbose)
  qed
  then show ?thesis by simp
qed

lemma run_verbose:
  assumes "run k calls s = Inr (s1, evs)"
  shows "(\<forall>(h, e) \<in> set evs. event_verbose e \<longrightarrow>
            max_attempts div 2 \<le> event_attempt e \<and>
            getStateCount h (event_region e) (event_attempt e) = 0) \<and>
         length (filter (\<lambda>(h, e). event_verbose e) evs) + verbose_budget s1 \<le> verbose_budget s"
  using assms
proof (induction k calls s arbitrary: s1 evs rule: run.induct)
  case (1 k s)
  then show ?case by simp
next
  case (2 k h cs s)
  from "2.prems" obtain b f evs1 where c: "sampleUsingConstraintSampler k h s [] = Inr (b, f)"
    and r: "run k cs (sampler f) = Inr (s1, evs1)" and evs: "evs = map (Pair h) (events f) @ evs1"
    by (auto split: sum.splits prod.splits)
  from call_verbose [OF c] have cv: "verbose_late h (events f)"
    "verbose_count (events f) + verbose_budget (sampler f) \<le> verbose_budget s"
    by simp_all
  from "2.IH" [OF c refl r] 
  have ih: "\<forall>(h, e) \<in> set evs1. event_verbose e \<longrightarrow>
            max_attempts div 2 \<le> event_attempt e \<and>
            getStateCount h (event_region e) (event_attempt e) = 0"
    "length (filter (\<lambda>(h, e). event_verbose e) evs1) + verbose_budget s1 \<le> verbose_budget (sampler f)"
    by simp_all
  have m: "length (filter (\<lambda>(h, e). event_verbose e) (map (Pair h) (events f))) = verbose_count (events f)"
    by (simp add: verbose_count_def filter_map comp_def)
  show ?case
    using cv ih m evs by (auto simp: verbose_late_def)
next
  case (3 k st cs s)
  from "3.prems" have "run k cs (addState st s) = Inr (s1, evs)" by simp
  from "3.IH" [OF this] show ?case
    by (simp add: addState_def queue_insert_def verbose_budget_def)
next
  case (4 k cs s)
  from "4.prems" have "run k cs (clear s) = Inr (s1, evs)" by simp
  from "4.IH" [OF this] show ?case
    by (simp add: clear_def WeightedGoalRegionSampler_clear_def Let_def verbose_budget_def)
qed

lemmas example_defs = example_kinematics_def example_sampler_def GoalRegionSampler_new_def
  unit_box_def example_constraint_def example_host_def region_bounds_def example_frame_def
  example_fallback_frame_def

lemmas sample_defs = sampleUsingConstraintSampler_def region_loop.simps sample_region_def
  select_region_sampler_def
  attempt_loop.simps attempt_def verbose_flag_def count_invalid_sample_def queue_insert_def
  set_constraint_position_def set_constraint_orientation_def vector_at_def max_attempts_def
  Let_def

text \<open>
  C5, as stated, fails. The claim: the verbose flag is true only on the first
  \<open>max_attempts / 2\<close> attempts of a region's attempt loop. In a call for one region
  whose projections all fail, the first attempt (index 0) has the flag false and the
  second attempt (index 1) has it true, and 1 is not below \<open>max_attempts div 2 = 1\<close>.
\<close>

theorem verbose_on_second_attempt:
  "call_events (sampleUsingConstraintSampler example_kinematics
      (example_host True False False False) (example_sampler (unit_box True True True)) [])
     = [Project 0 0 False, Project 0 1 True]
   \<and> event_verbose (Project 0 1 True)
   \<and> \<not> event_attempt (Project 0 1 True) < max_attempts div 2"
  by (simp add: call_events_def example_defs sample_defs)

text \<open>
  C5, amended. Over any list of calls on a sampler, every call that receives a true
  verbose flag belongs to an attempt whose index is at least \<open>max_attempts div 2\<close>
  (line 435 tests \<^verbatim>\<open>a >= max_attempts_div2\<close>) and that was made while
  \<^verbatim>\<open>getStateCount\<close> answered 0, and at most one call of the whole list receives a
  true flag.
\<close>

theorem verbose_late_and_once:
  assumes "run k calls s = Inr (s1, evs)"
  shows "(\<forall>(h, e) \<in> set evs. event_verbose e \<longrightarrow>
            max_attempts div 2 \<le> event_attempt e \<and>
            getStateCount h (event_region e) (event_attempt e) = 0) \<and>
         length (filter (\<lambda>(h, e). event_verbose e) evs) \<le> 1"
proof -
  have "verbose_budget s \<le> 1" by (simp add: verbose_budget_def)
  with run_verbose [OF assms] show ?thesis by simp
qed

theorem verbose_late_and_once_witness:
  "run_events (run example_kinematics
      [Generate (example_host True False False False), Clear,
       Generate (example_host True False False False)]
      (example_sampler (unit_box True True True)))
     = [Project 0 0 False, Project 0 1 True]
   \<and> length (filter event_verbose [Project 0 0 False, Project 0 1 True]) \<le> 1"
proof -
  let ?r = "run example_kinematics
      [Generate (example_host True False False False), Clear,
       Generate (example_host True False False False)]
      (example_sampler (unit_box True True True))"
  have ev: "run_events ?r = [Project 0 0 False, Project 0 1 True]"
    by (simp add: run_events_def clear_def WeightedGoalRegionSampler_clear_def example_defs sample_defs)
  obtain s1 evs where r: "?r = Inr (s1, evs)"
    using ev by (cases ?r) (auto simp: run_events_def)
  from verbose_late_and_once [OF r] have "length (filter (\<lambda>(h, e). event_verbose e) evs) \<le> 1"
    by simp
  then have "length (filter event_verbose (map snd evs)) \<le> 1"
    by (simp add: filter_map comp_def case_prod_unfold)
  with ev r show ?thesis by (simp add: run_events_def)
qed

section \<open>The attempt budget\<close>

lemma attempt_loop_events:
  assumes "attempt_loop h i n 0 f = Inr f'"
  shows "\<exists>new. events f' = events f @ new \<and> length new \<le> max_attempts \<and>
           (\<forall>e \<in> set new. event_region e = i \<and> while_sampling h e)"
proof (rule attempt_loop_rule [where
      Q = "\<lambda>a g. a \<le> max_attempts \<and> (\<forall>a'<a. isSampling h i a') \<and>
             (\<exists>new. events g = events f @ new \<and> length new \<le> a \<and>
                (\<forall>e \<in> set new. event_region e = i \<and> event_attempt e < a))",
      OF _ _ _ assms])
  show "0 \<le> max_attempts \<and> (\<forall>a'<0. isSampling h i a') \<and>
        (\<exists>new. events f = events f @ new \<and> length new \<le> 0 \<and>
           (\<forall>e \<in> set new. event_region e = i \<and> event_attempt e < 0))"
    by simp
next
  fix a :: nat and g :: frame
  assume "\<not> (a < max_attempts \<and> isSampling h i a)"
    and Q: "a \<le> max_attempts \<and> (\<forall>a'<a. isSampling h i a') \<and>
             (\<exists>new. events g = events f @ new \<and> length new \<le> a \<and>
                (\<forall>e \<in> set new. event_region e = i \<and> event_attempt e < a))"
  then obtain new where new: "events g = events f @ new" "length new \<le> a"
      "\<forall>e \<in> set new. event_region e = i \<and> event_attempt e < a"
    by blast
  from Q new have "\<forall>e \<in> set new. event_region e = i \<and> while_sampling h e"
    by (auto simp: while_sampling_def)
  with new Q show "\<exists>new. events g = events f @ new \<and> length new \<le> max_attempts \<and>
         (\<forall>e \<in> set new. event_region e = i \<and> while_sampling h e)"
    by (intro exI [of _ new]) simp
next
  fix a :: nat and g g1 :: frame and b :: bool
  assume lt: "a < max_attempts" and sa: "isSampling h i a" and st: "attempt h i n a g = Inr (b, g1)"
    and Q: "a \<le> max_attempts \<and> (\<forall>a'<a. isSampling h i a') \<and>
             (\<exists>new. events g = events f @ new \<and> length new \<le> a \<and>
                (\<forall>e \<in> set new. event_region e = i \<and> event_attempt e < a))"
  then obtain new where new: "events g = events f @ new" "length new \<le> a"
      "\<forall>e \<in> set new. event_region e = i \<and> event_attempt e < a"
    by blast
  from attempt_event [OF st] obtain e where e: "events g1 = events g @ [e]"
    "event_region e = i" "event_attempt e = a"
    by blast
  have all: "\<forall>a'<Suc a. isSampling h i a'"
    using Q sa by (auto simp: less_Suc_eq)
  have ev: "events g1 = events f @ (new @ [e])" "length (new @ [e]) \<le> Suc a"
    "\<forall>x \<in> set (new @ [e]). event_region x = i \<and> event_attempt x < Suc a"
    using new e by auto
  have post: "\<forall>x \<in> set (new @ [e]). event_region x = i \<and> while_sampling h x"
    using ev(3) all lt by (auto simp: while_sampling_def)
  show "if b then \<exists>new. events g1 = events f @ new \<and> length new \<le> max_attempts \<and>
               (\<forall>e \<in> set new. event_region e = i \<and> while_sampling h e)
        else Suc a \<le> max_attempts \<and> (\<forall>a'<Suc a. isSampling h i a') \<and>
             (\<exists>new. events g1 = events f @ new \<and> length new \<le> Suc a \<and>
                (\<forall>e \<in> set new. event_region e = i \<and> event_attempt e < Suc a))"
  proof (cases b)
    case True
    have "length (new @ [e]) \<le> max_attempts" using ev(2) lt by simp
    with ev(1) post True show ?thesis by (intro exI [of _ "new @ [e]"] | simp)+
  next
    case False
    have "\<exists>new. events g1 = events f @ new \<and> length new \<le> Suc a \<and>
                (\<forall>e \<in> set new. event_region e = i \<and> event_attempt e < Suc a)"
      using ev by (intro exI [of _ "new @ [e]"]) simp
    with False lt all show ?thesis by simp
  qed
qed

lemma sample_region_events:
  assumes "sample_region k h i f = Inr f1"
  shows "\<exists>new. events f1 = events f @ new \<and> length new \<le> max_attempts \<and>
           (\<forall>e \<in> set new. event_region e = i \<and> while_sampling h e)"
proof -
  from sample_region_cases [OF assms] obtain s4
    where f1: "f1 = f\<lparr>sampler := s4\<rparr> \<or>
            attempt_loop h i (samplingAttemptsCount h i) 0 (f\<lparr>sampler := s4\<rparr>) = Inr f1"
    by blast
  then show ?thesis
  proof
    assume "f1 = f\<lparr>sampler := s4\<rparr>"
    then show ?thesis by simp
  next
    assume "attempt_loop h i (samplingAttemptsCount h i) 0 (f\<lparr>sampler := s4\<rparr>) = Inr f1"
    from attempt_loop_events [OF this] show ?thesis by simp
  qed
qed

lemma call_events_bounded:
  assumes "sampleUsingConstraintSampler k h s out = Inr (b, f)"
  shows "(\<forall>e \<in> set (events f). while_sampling h e) \<and>
         (\<forall>i. length (attempts_of i (events f)) \<le> max_attempts)"
proof -
  let ?f0 = "\<lparr>sampler = s, sampled_states = out, success = False, events = []\<rparr>"
  let ?Q = "\<lambda>j f. (\<forall>e \<in> set (events f). event_region e < j \<and> while_sampling h e) \<and>
              (\<forall>i. length (attempts_of i (events f)) \<le> max_attempts)"
  from assms have r: "region_loop k h 0 ?f0 = Inr f"
    by (auto simp: sampleUsingConstraintSampler_def Let_def split: sum.splits if_splits)
  have "\<exists>j. ?Q j f"
  proof (rule region_loop_rule [where Q = ?Q, OF _ _ r])
    show "?Q 0 ?f0" by (simp add: attempts_of_def)
  next
    fix i :: nat and f f1 :: frame
    assume sr: "sample_region k h i f = Inr f1" and Q: "?Q i f"
    from sample_region_events [OF sr] obtain new where new: "events f1 = events f @ new"
      "length new \<le> max_attempts" "\<forall>e \<in> set new. event_region e = i \<and> while_sampling h e"
      by blast
    have a: "\<forall>e \<in> set (events f1). event_region e < Suc i \<and> while_sampling h e"
      using Q new by (auto simp: less_Suc_eq)
    have old: "attempts_of i (events f) = []"
      using Q by (auto simp: attempts_of_def filter_empty_conv)
    have b: "length (attempts_of j (events f1)) \<le> max_attempts" for j
    proof (cases "j = i")
      case True
      have "length (attempts_of i new) \<le> length new"
        by (simp add: attempts_of_def)
      with True old new show ?thesis by (simp add: attempts_of_def)
    next
      case False
      with new(3) have "attempts_of j new = []"
        by (auto simp: attempts_of_def filter_empty_conv)
      with Q new(1) show ?thesis by (simp add: attempts_of_def)
    qed
    from a b show "?Q (Suc i) f1" by simp
  qed
  then show ?thesis by auto
qed

text \<open>
  C7. In every call that returns, the attempts made for a region \<open>i\<close> are at most
  \<open>max_attempts = 2\<close>, every attempt has an index below \<open>max_attempts\<close>, and
  \<^verbatim>\<open>isSampling\<close> answered true at every check of its region up to it: no attempt
  is made after \<^verbatim>\<open>isSampling\<close> has answered false.
\<close>

theorem attempts_per_region_bounded:
  assumes "sampleUsingConstraintSampler k h s out = Inr (b, f)"
  shows "length (attempts_of i (events f)) \<le> max_attempts \<and> max_attempts = 2 \<and>
         (\<forall>e \<in> set (events f). event_attempt e < max_attempts \<and>
            (\<forall>a' \<le> event_attempt e. isSampling h (event_region e) a'))"
  using call_events_bounded [OF assms]
  by (simp add: while_sampling_def max_attempts_def)

theorem attempts_per_region_bounded_witness:
  "call_events (sampleUsingConstraintSampler example_kinematics
      (example_host True False False False) (example_sampler (unit_box True True True)) [])
     = [Project 0 0 False, Project 0 1 True]
   \<and> length (attempts_of 0 [Project 0 0 False, Project 0 1 True]) \<le> max_attempts
   \<and> call_events (sampleUsingConstraintSampler example_kinematics
      ((example_host True False False False)\<lparr>isSampling := (\<lambda>i a. a < 1)\<rparr>)
      (example_sampler (unit_box True True True)) [])
     = [Project 0 0 False]"
proof -
  let ?c = "sampleUsingConstraintSampler example_kinematics
      (example_host True False False False) (example_sampler (unit_box True True True)) []"
  have ev: "call_events ?c = [Project 0 0 False, Project 0 1 True]"
    by (simp add: call_events_def example_defs sample_defs)
  obtain b f where r: "?c = Inr (b, f)"
    using ev by (cases ?c) (auto simp: call_events_def)
  from attempts_per_region_bounded [OF r, of 0]
  have "length (attempts_of 0 (events f)) \<le> max_attempts" by simp
  moreover have "call_events (sampleUsingConstraintSampler example_kinematics
      ((example_host True False False False)\<lparr>isSampling := (\<lambda>i a. a < 1)\<rparr>)
      (example_sampler (unit_box True True True)) [])
     = [Project 0 0 False]"
    by (simp add: call_events_def example_defs sample_defs)
  ultimately show ?thesis using ev r by (simp add: call_events_def)
qed

section \<open>Accepted candidates\<close>



















section \<open>Invalid samples\<close>

lemma count_invalid_sample_effect:
  "invalid_sampled_constraints (count_invalid_sample n s) = invalid_sampled_constraints s + 1 \<and>
   (warned_invalid_samples (count_invalid_sample n s) \<longleftrightarrow>
      warned_invalid_samples s \<or> (n * 8) div 10 \<le> invalid_sampled_constraints s + 1)"
  by (auto simp: count_invalid_sample_def Let_def)

lemma attempt_counts:
  assumes "attempt h i n a f = Inr (b, f1)"
  shows "(constraint_check_failed h i a f \<longrightarrow>
            \<not> b \<and>
            invalid_sampled_constraints (sampler f1) = invalid_sampled_constraints (sampler f) + 1 \<and>
            (warned_invalid_samples (sampler f1) \<longleftrightarrow>
               warned_invalid_samples (sampler f) \<or>
               (n * 8) div 10 \<le> invalid_sampled_constraints (sampler f) + 1) \<and>
            events f1 = events f @ [Project i a (fst (verbose_flag h i a (sampler f)))]) \<and>
         (\<not> constraint_check_failed h i a f \<longrightarrow>
            invalid_sampled_constraints (sampler f1) = invalid_sampled_constraints (sampler f) \<and>
            warned_invalid_samples (sampler f1) = warned_invalid_samples (sampler f))"
proof -
  obtain v s0 where vf: "verbose_flag h i a (sampler f) = (v, s0)"
    by (cases "verbose_flag h i a (sampler f)")
  note k = verbose_flag_keeps [OF vf]
  show ?thesis
  proof (cases "constraint_check_failed h i a f")
    case True
    with vf obtain cs ws where c: "constraint_sampler s0 = Some cs"
      "project h i a v cs (work_state s0) = (True, ws)"
      "\<not> decide h i a (kinematic_constraint_set s0) ws v"
      by (auto simp: constraint_check_failed_def split: option.splits prod.splits)
    let ?s1 = "s0\<lparr>work_state := ws\<rparr>"
    from c vf have eq: "attempt h i n a f =
        Inr (False, f\<lparr>sampler := ?s1, events := events f @ [Project i a v],
                       sampler := count_invalid_sample n ?s1\<rparr>)"
      by (simp add: attempt_def Let_def)
    with assms have b: "\<not> b" and f1: "f1 = f\<lparr>sampler := ?s1, events := events f @ [Project i a v],
                       sampler := count_invalid_sample n ?s1\<rparr>"
      by simp_all
    from f1 k count_invalid_sample_effect [of n ?s1] vf True b show ?thesis
      by simp
  next
    case False
    with assms vf k show ?thesis
      by (auto simp: attempt_def constraint_check_failed_def Let_def queue_insert_def
          split: option.splits prod.splits if_splits)
  qed
qed

lemma attempt_loop_warned:
  assumes "attempt_loop h i n a f = Inr f'" "warned_invalid_samples (sampler f)"
  shows "warned_invalid_samples (sampler f')"
proof (rule attempt_loop_rule [where Q = "\<lambda>a f. warned_invalid_samples (sampler f)",
      OF _ _ _ assms(1)])
  fix a :: nat and f f1 :: frame and b :: bool
  assume "attempt h i n a f = Inr (b, f1)" "warned_invalid_samples (sampler f)"
  then have "warned_invalid_samples (sampler f1)" by (rule attempt_warned)
  then show "if b then warned_invalid_samples (sampler f1) else warned_invalid_samples (sampler f1)"
    by simp
qed (use assms in simp_all)

lemma sample_region_warned:
  assumes "sample_region k h i f = Inr f1" "warned_invalid_samples (sampler f)"
  shows "warned_invalid_samples (sampler f1)"
proof -
  from sample_region_cases [OF assms(1)] obtain s4
    where s4: "select_region_sampler k h i (sampler f) = Inr s4"
      and f1: "f1 = f\<lparr>sampler := s4\<rparr> \<or>
            attempt_loop h i (samplingAttemptsCount h i) 0 (f\<lparr>sampler := s4\<rparr>) = Inr f1"
    by blast
  have g: "warned_invalid_samples (sampler (f\<lparr>sampler := s4\<rparr>))"
    using assms(2) select_region_sampler_keeps [OF s4] by simp
  from f1 show ?thesis
  proof
    assume "f1 = f\<lparr>sampler := s4\<rparr>" with g show ?thesis by simp
  next
    assume "attempt_loop h i (samplingAttemptsCount h i) 0 (f\<lparr>sampler := s4\<rparr>) = Inr f1"
    from attempt_loop_warned [OF this g] show ?thesis .
  qed
qed

lemma call_warned:
  assumes "sampleUsingConstraintSampler k h s out = Inr (b, f)" "warned_invalid_samples s"
  shows "warned_invalid_samples (sampler f)"
proof -
  let ?f0 = "\<lparr>sampler = s, sampled_states = out, success = False, events = []\<rparr>"
  let ?Q = "\<lambda>(j::nat) f. warned_invalid_samples (sampler f)"
  from assms have r: "region_loop k h 0 ?f0 = Inr f"
    by (auto simp: sampleUsingConstraintSampler_def Let_def split: sum.splits if_splits)
  have "\<exists>j. ?Q j f"
  proof (rule region_loop_rule [where Q = ?Q, OF _ _ r])
    show "?Q 0 ?f0" using assms(2) by simp
  next
    fix i :: nat and f f1 :: frame
    assume "sample_region k h i f = Inr f1" "?Q i f"
    then show "?Q (Suc i) f1" by (rule sample_region_warned)
  qed
  then show ?thesis by simp
qed

lemma run_warned:
  assumes "run k calls s = Inr (s1, evs)" "warned_invalid_samples s"
  shows "warned_invalid_samples s1"
  using assms
proof (induction k calls s arbitrary: s1 evs rule: run.induct)
  case (1 k s)
  then show ?case by simp
next
  case (2 k h cs s)
  from "2.prems" obtain b f evs1 where c: "sampleUsingConstraintSampler k h s [] = Inr (b, f)"
    and r: "run k cs (sampler f) = Inr (s1, evs1)"
    by (auto split: sum.splits prod.splits)
  from call_warned [OF c "2.prems"(2)] have "warned_invalid_samples (sampler f)" .
  from "2.IH" [OF c refl r this] show ?case .
next
  case (3 k st cs s)
  then show ?case by (simp add: addState_def queue_insert_def)
next
  case (4 k cs s)
  then show ?case by (simp add: clear_def WeightedGoalRegionSampler_clear_def Let_def)
qed

text \<open>
  C8, as stated, fails. The claim: the diagnostic is raised once the count of invalid
  samples exceeds 80% of the attempts made so far. With \<open>attempts_so_far = 2\<close> the
  first failed constraint check, which makes the count 1, sets the flag
  \<open>warned_invalid_samples\<close>, and 1 does not exceed 80% of 2: line 478 tests
  \<^verbatim>\<open>invalid_sampled_constraints_ >= (attempts_so_far * 8) / 10\<close> with an integer
  quotient.
\<close>

theorem warned_flag_set_at_half:
  "attempt (example_host True True False True) 0 2 0 (example_frame (Some [])) =
     Inr (False, snd (projr (attempt (example_host True True False True) 0 2 0 (example_frame (Some [])))))
   \<and> \<not> warned_invalid_samples (sampler (example_frame (Some [])))
   \<and> warned_invalid_samples (sampler (snd (projr
        (attempt (example_host True True False True) 0 2 0 (example_frame (Some []))))))
   \<and> invalid_sampled_constraints (sampler (snd (projr
        (attempt (example_host True True False True) 0 2 0 (example_frame (Some [])))))) = 1
   \<and> \<not> (0.8 * real (unat (2 :: 32 word)) < real (unat (1 :: 32 word)))"
  by (simp add: example_defs sample_defs)

text \<open>
  C8, amended. An attempt whose constraint check fails adds one to
  \<open>invalid_sampled_constraints\<close> and does not leave the loop; after it the flag
  \<open>warned_invalid_samples\<close> is set exactly when it was set before or the new count is
  at least the 32-bit quotient \<open>(attempts_so_far * 8) div 10\<close>; the attempt makes no
  call besides the projection (the log call of lines 481 to 483 is commented out, the
  flag is the only trace). Any other attempt leaves the count and the flag as they were.
  Over any list of calls a set flag stays set, so the flag is set at most once.
\<close>

theorem invalid_sample_counted_flag_set_once:
  assumes "attempt h i n a f = Inr (b, f1)"
  shows "(constraint_check_failed h i a f \<longrightarrow>
            \<not> b \<and>
            invalid_sampled_constraints (sampler f1) = invalid_sampled_constraints (sampler f) + 1 \<and>
            (warned_invalid_samples (sampler f1) \<longleftrightarrow>
               warned_invalid_samples (sampler f) \<or>
               (n * 8) div 10 \<le> invalid_sampled_constraints (sampler f) + 1) \<and>
            events f1 = events f @ [Project i a (fst (verbose_flag h i a (sampler f)))]) \<and>
         (\<not> constraint_check_failed h i a f \<longrightarrow>
            invalid_sampled_constraints (sampler f1) = invalid_sampled_constraints (sampler f) \<and>
            warned_invalid_samples (sampler f1) = warned_invalid_samples (sampler f)) \<and>
         (run k calls s = Inr (s1, evs) \<and> warned_invalid_samples s \<longrightarrow> warned_invalid_samples s1)"
  using attempt_counts [OF assms] run_warned [of k calls s s1 evs]
  by blast

theorem invalid_sample_counted_flag_set_once_witness:
  "constraint_check_failed (example_host True True False True) 0 0 (example_frame (Some [])) \<and>
   invalid_sampled_constraints (sampler (snd (projr
     (attempt (example_host True True False True) 0 2 0 (example_frame (Some [])))))) = 1 \<and>
   warned_invalid_samples (sampler (snd (projr
     (attempt (example_host True True False True) 0 2 0 (example_frame (Some [])))))) \<and>
   (2 * 8) div 10 \<le> (1 :: 32 word) \<and>
   \<not> constraint_check_failed (example_host True True True True) 0 0 (example_frame (Some [])) \<and>
   invalid_sampled_constraints (sampler (snd (projr
     (attempt (example_host True True True True) 0 2 0 (example_frame (Some [])))))) = 0 \<and>
   \<not> warned_invalid_samples (sampler (snd (projr
     (attempt (example_host True True True True) 0 2 0 (example_frame (Some [])))))) \<and>
   warned_invalid_samples
     (fst (projr (run example_kinematics [Generate (example_host True True False True), Clear]
        ((example_sampler (unit_box True True True))\<lparr>warned_invalid_samples := True\<rparr>))))"
proof -
  let ?h = "example_host True True False True"
  let ?h2 = "example_host True True True True"
  let ?f = "example_frame (Some [])"
  let ?s = "(example_sampler (unit_box True True True))\<lparr>warned_invalid_samples := True\<rparr>"
  let ?r = "run example_kinematics [Generate ?h, Clear] ?s"
  let ?a = "attempt ?h 0 2 0 ?f"
  let ?a2 = "attempt ?h2 0 2 0 ?f"
  have pre: "constraint_check_failed ?h 0 0 ?f" "\<not> constraint_check_failed ?h2 0 0 ?f"
    "invalid_sampled_constraints (sampler ?f) = 0" "\<not> warned_invalid_samples (sampler ?f)"
    by (simp_all add: constraint_check_failed_def verbose_flag_def max_attempts_def example_defs)
  have ret: "?a = Inr (fst (projr ?a), snd (projr ?a))" "?a2 = Inr (fst (projr ?a2), snd (projr ?a2))"
    by (simp_all add: example_defs sample_defs)
  have "\<exists>s1 evs. ?r = Inr (s1, evs)"
    by (simp add: clear_def WeightedGoalRegionSampler_clear_def example_defs sample_defs)
  then obtain s1 evs where r: "?r = Inr (s1, evs)" by blast
  have w: "warned_invalid_samples ?s" by simp
  have th: "(2 * 8) div 10 \<le> (1 :: 32 word)" by simp
  note T = invalid_sample_counted_flag_set_once
    [OF ret(1), of example_kinematics "[Generate ?h, Clear]" ?s s1 evs]
  note T2 = invalid_sample_counted_flag_set_once
    [OF ret(2), of example_kinematics "[Generate ?h, Clear]" ?s s1 evs]
  from T pre th have A: "invalid_sampled_constraints (sampler (snd (projr ?a))) = 1"
    "warned_invalid_samples (sampler (snd (projr ?a)))"
    by simp_all
  from T2 pre have B: "invalid_sampled_constraints (sampler (snd (projr ?a2))) = 0"
    "\<not> warned_invalid_samples (sampler (snd (projr ?a2)))"
    by simp_all
  from T r w have "warned_invalid_samples s1" by blast
  with pre A B th r show ?thesis by simp
qed

section \<open>clear\<close>

text \<open>
  C6. After \<open>clear\<close> the queue, the regions, the constraints, the samplers and the
  spaces are empty. The next call of \<open>sampleUsingConstraintSampler\<close> makes no
  iteration: it returns false, calls no collaborator and leaves the sampler as
  \<open>clear\<close> left it. The sampler after \<open>clear\<close> does not depend on the regions,
  constraints, spaces, samplers or queue it had before.
\<close>

theorem clear_empties_sampler:
  "goals_priority_queue (clear s) = [] \<and> workspace_goal_regions (clear s) = [] \<and>
   constrs (clear s) = [] \<and> se3_samplers (clear s) = [] \<and> se3_spaces (clear s) = [] \<and>
   sampleUsingConstraintSampler k h (clear s) out =
     Inr (False, \<lparr>sampler = clear s, sampled_states = out, success = False, events = []\<rparr>) \<and>
   clear (s\<lparr>workspace_goal_regions := rs, constrs := cs, se3_spaces := sp, se3_samplers := ss,
            goals_priority_queue := q\<rparr>) = clear s"
  by (simp add: clear_def WeightedGoalRegionSampler_clear_def Let_def
      sampleUsingConstraintSampler_def region_loop_stop)

section \<open>getBetterSolution\<close>

lemma sqrt_25: "sqrt 25 = 5"
  using real_sqrt_abs [of 5] by simp

lemma sqrt_9: "sqrt 9 = 3"
  using real_sqrt_abs [of 3] by simp

lemmas road_defs = getBetterSolution_def region_distance.simps gr_distance_def list_sort_def
  example_roadmap_def centred_box_def example_kinematics_def example_sampler_def
  GoalRegionSampler_new_def Let_def

text \<open>
  C2. The claim: every vertex of the roadmap gets a score and the first vertex of the
  same component is chosen from the sorted list of all vertices, so that with A
  (terminal, score 5), B (score 3, same component) and C (score 1, other component) the
  refinement selects B. The loop of lines 233 to 282 leaves at the start vertex
  (\<^verbatim>\<open>break\<close>, line 280), so the list holds only the vertices up to it. With the
  vertices listed as A, B, C the list is A alone, B is never scored and the path stays
  as it was; listed as C, B, A the same roadmap gives the path through B.
\<close>

theorem getBetterSolution_scores_only_a_prefix:
  "roadmap_scan example_kinematics (example_sampler centred_box) (example_roadmap [0, 1, 2])
      [5, 0, 0, 0, 0, 0] (vertices (example_roadmap [0, 1, 2])) []
     = ([(Finite 5, 0)], Some (0, Finite 5))
   \<and> sameComponent (example_roadmap [0, 1, 2]) 0 1
   \<and> getBetterSolution example_kinematics (example_sampler centred_box) (example_roadmap [0, 1, 2])
        [[9, 0, 0, 0, 0, 0], [5, 0, 0, 0, 0, 0]]
     = Inr [[9, 0, 0, 0, 0, 0], [5, 0, 0, 0, 0, 0]]
   \<and> getBetterSolution example_kinematics (example_sampler centred_box) (example_roadmap [2, 1, 0])
        [[9, 0, 0, 0, 0, 0], [5, 0, 0, 0, 0, 0]]
     = Inr [[9, 0, 0, 0, 0, 0], [5, 0, 0, 0, 0, 0], [4, 0, 0, 0, 0, 0], [3, 0, 0, 0, 0, 0]]"
  by (simp add: road_defs sqrt_25 sqrt_9)

end
